theory Spec2Isabelle
  imports Main "HOL-Library.Word"
begin

unbundle bit_operations_syntax

section \<open>Data model\<close>

text \<open>
  The encryption service of \<^verbatim>\<open>eaglearn_ml.cpp\<close> (class \<^verbatim>\<open>EncryptionManager\<close>).
  A \<^verbatim>\<open>std::string\<close> and a \<^verbatim>\<open>std::vector<unsigned char>\<close> are both sequences of
  bytes; an \<^verbatim>\<open>unsigned char\<close> is an 8-bit word. Character literals of the source are
  written through \<open>str\<close>, which maps each character to its byte.
\<close>

type_synonym byte = "8 word"

definition str :: "string \<Rightarrow> byte list" where
  "str s = map (\<lambda>c. of_char c) s"

text \<open>
  The three \<^verbatim>\<open>std::runtime_error\<close>s the service throws, named as the specification
  names them: "Encryption key not set" is \<open>KeyNotConfigured\<close>, "Invalid encrypted data"
  is \<open>MalformedEnvelope\<close>, "Decryption failed" is \<open>AuthenticationFailure\<close>.
  \<open>LengthError\<close> is the \<^verbatim>\<open>std::length_error\<close> of a \<^verbatim>\<open>std::vector\<close> constructed with a
  size beyond \<^verbatim>\<open>max_size()\<close>. \<open>OutOfBoundsRead\<close> stands for a read of
  \<^verbatim>\<open>encrypted[j]\<close> with \<open>j\<close> beyond the string's terminator, which C++ leaves undefined.
\<close>

datatype error =
  KeyNotConfigured | MalformedEnvelope | AuthenticationFailure | LengthError | OutOfBoundsRead

text \<open>
  The conversion of a \<^verbatim>\<open>size_t\<close> to \<^verbatim>\<open>int\<close>: the low 32 bits, read as two's complement
  (what C++20 prescribes and the compilers before it do).
\<close>

definition to_int :: "nat \<Rightarrow> int" where
  "to_int n = sint (word_of_nat n :: 32 word)"

text \<open>
  The sum of two \<^verbatim>\<open>int\<close>s, wrapping around at 32 bits as the machine does (C++ leaves a
  signed overflow undefined).
\<close>

definition int_add :: "int \<Rightarrow> int \<Rightarrow> int" where
  "int_add a b = sint (word_of_int (a + b) :: 32 word)"

section \<open>The text codec\<close>

text \<open>
  Lines 824 and 851-868: the encoding alphabet and the 256-entry decoding table, one list
  for each row of 16 entries of the source.
\<close>

definition b64_chars :: "byte list" where
  "b64_chars = str ''ABCDEFGHIJKLMNOPQRSTUVWXYZabcdefghijklmnopqrstuvwxyz0123456789+/''"

definition b64_decode_map :: "int list" where
  "b64_decode_map =
    [-1,-1,-1,-1,-1,-1,-1,-1,-1,-1,-1,-1,-1,-1,-1,-1] @
    [-1,-1,-1,-1,-1,-1,-1,-1,-1,-1,-1,-1,-1,-1,-1,-1] @
    [-1,-1,-1,-1,-1,-1,-1,-1,-1,-1,-1,62,-1,-1,-1,63] @
    [52,53,54,55,56,57,58,59,60,61,-1,-1,-1,-1,-1,-1] @
    [-1, 0, 1, 2, 3, 4, 5, 6, 7, 8, 9,10,11,12,13,14] @
    [15,16,17,18,19,20,21,22,23,24,25,-1,-1,-1,-1,-1] @
    [-1,26,27,28,29,30,31,32,33,34,35,36,37,38,39,40] @
    [41,42,43,44,45,46,47,48,49,50,51,-1,-1,-1,-1,-1] @
    [-1,-1,-1,-1,-1,-1,-1,-1,-1,-1,-1,-1,-1,-1,-1,-1] @
    [-1,-1,-1,-1,-1,-1,-1,-1,-1,-1,-1,-1,-1,-1,-1,-1] @
    [-1,-1,-1,-1,-1,-1,-1,-1,-1,-1,-1,-1,-1,-1,-1,-1] @
    [-1,-1,-1,-1,-1,-1,-1,-1,-1,-1,-1,-1,-1,-1,-1,-1] @
    [-1,-1,-1,-1,-1,-1,-1,-1,-1,-1,-1,-1,-1,-1,-1,-1] @
    [-1,-1,-1,-1,-1,-1,-1,-1,-1,-1,-1,-1,-1,-1,-1,-1] @
    [-1,-1,-1,-1,-1,-1,-1,-1,-1,-1,-1,-1,-1,-1,-1,-1] @
    [-1,-1,-1,-1,-1,-1,-1,-1,-1,-1,-1,-1,-1,-1,-1,-1]"

text \<open>The padding character \<^verbatim>\<open>'='\<close>.\<close>

definition pad :: byte where
  "pad = 0x3D"

text \<open>
  \<^verbatim>\<open>unsigned char b = b64_decode_map[static_cast<unsigned char>(c)]\<close>: the table entry,
  an \<^verbatim>\<open>int\<close>, converted to \<^verbatim>\<open>unsigned char\<close> (so that -1 becomes 255).
\<close>

definition lookup :: "byte \<Rightarrow> byte" where
  "lookup c = word_of_int (b64_decode_map ! unat c)"

text \<open>
  Lines 827-836, the encoding loop of \<^verbatim>\<open>encrypt\<close>. The shifts and masks are computed on
  \<^verbatim>\<open>int\<close> (integral promotion); every index is between 0 and 63.
\<close>

function b64_encode_loop :: "byte list \<Rightarrow> nat \<Rightarrow> byte list \<Rightarrow> byte list" where
  "b64_encode_loop encrypted_data i result =
    (if i < length encrypted_data then
       (let b1 = encrypted_data ! i;
            b2 = (if i + 1 < length encrypted_data then encrypted_data ! (i + 1) else 0);
            b3 = (if i + 2 < length encrypted_data then encrypted_data ! (i + 2) else 0);
            r1 = result @ [b64_chars ! nat (drop_bit 2 (uint b1))];
            r2 = r1 @ [b64_chars ! nat (push_bit 4 (uint b1 AND 0x03) OR drop_bit 4 (uint b2))];
            r3 = r2 @ [if i + 1 < length encrypted_data
                       then b64_chars ! nat (push_bit 2 (uint b2 AND 0x0F) OR drop_bit 6 (uint b3))
                       else pad];
            r4 = r3 @ [if i + 2 < length encrypted_data
                       then b64_chars ! nat (uint b3 AND 0x3F)
                       else pad]
        in b64_encode_loop encrypted_data (i + 3) r4)
     else result)"
  by pat_completeness auto
termination
  by (relation "measure (\<lambda>(d, i, r). length d - i)") auto

definition b64_encode :: "byte list \<Rightarrow> byte list" where
  "b64_encode encrypted_data = b64_encode_loop encrypted_data 0 []"

text \<open>
  \<^verbatim>\<open>encrypted[j]\<close> on a \<^verbatim>\<open>std::string\<close>: the character at \<open>j\<close>; the terminator 0 at
  \<open>j = size()\<close>; undefined beyond.
\<close>

definition str_at :: "byte list \<Rightarrow> nat \<Rightarrow> byte option" where
  "str_at s j = (if j < length s then Some (s ! j) else if j = length s then Some 0 else None)"

text \<open>
  Lines 870-884, the decoding loop of \<^verbatim>\<open>decrypt\<close>. Each round reads four characters,
  whatever the length of the string, and looks them up without testing for -1.
\<close>

function b64_decode_loop :: "byte list \<Rightarrow> nat \<Rightarrow> byte list \<Rightarrow> error + byte list" where
  "b64_decode_loop encrypted i encrypted_data =
    (if i < length encrypted then
       (case (str_at encrypted i, str_at encrypted (i + 1),
              str_at encrypted (i + 2), str_at encrypted (i + 3)) of
          (Some e0, Some e1, Some e2, Some e3) \<Rightarrow>
            (let b1 = lookup e0;
                 b2 = lookup e1;
                 b3 = (if e2 \<noteq> pad then lookup e2 else 0);
                 b4 = (if e3 \<noteq> pad then lookup e3 else 0);
                 d1 = encrypted_data @ [word_of_int (push_bit 2 (uint b1) OR drop_bit 4 (uint b2))];
                 d2 = (if e2 \<noteq> pad
                       then d1 @ [word_of_int (push_bit 4 (uint b2 AND 0x0F) OR drop_bit 2 (uint b3))]
                       else d1);
                 d3 = (if e3 \<noteq> pad
                       then d2 @ [word_of_int (push_bit 6 (uint b3 AND 0x03) OR uint b4)]
                       else d2)
             in b64_decode_loop encrypted (i + 4) d3)
        | _ \<Rightarrow> Inl OutOfBoundsRead)
     else Inr encrypted_data)"
  by pat_completeness auto
termination
  by (relation "measure (\<lambda>(s, i, d). length s - i)") auto

definition b64_decode :: "byte list \<Rightarrow> error + byte list" where
  "b64_decode encrypted = b64_decode_loop encrypted 0 []"

section \<open>The OpenSSL primitives\<close>

text \<open>
  The service calls OpenSSL, which is no part of the repository. Its functions are
  parameters of the model, under the names of the C functions. \<open>'ctx\<close> is the state of an
  \<^verbatim>\<open>EVP_CIPHER_CTX\<close>; a function that changes the context returns the new one. A function
  that writes into a buffer of the caller returns the bytes it writes, and their number is
  the length it reports through \<^verbatim>\<open>outl\<close>.
  \<^item> \<open>PKCS5_PBKDF2_HMAC pass passlen salt saltlen iter keylen\<close>, with
    \<^verbatim>\<open>EVP_sha256()\<close> as the digest: the derived bytes. The four numbers are \<^verbatim>\<open>int\<close>s.
  \<^item> \<open>EVP_EncryptInit_ex key iv\<close> and \<open>EVP_DecryptInit_ex key iv\<close>, with
    \<^verbatim>\<open>EVP_aes_256_gcm()\<close> as the cipher: a fresh context.
  \<^item> \<open>EVP_EncryptUpdate ctx in inl\<close> and \<open>EVP_DecryptUpdate ctx in inl\<close>: the new context
    and the output bytes.
  \<^item> \<open>EVP_EncryptFinal_ex ctx\<close>: the new context and the output bytes.
  \<^item> \<open>EVP_CTRL_GCM_GET_TAG ctx\<close>: the 16 bytes of the tag.
  \<^item> \<open>EVP_CTRL_GCM_SET_TAG ctx tag\<close>: the context holding the expected tag.
  \<^item> \<open>EVP_DecryptFinal_ex ctx\<close>: the output bytes and the return value, positive when
    the tag verifies.
\<close>

record 'ctx openssl =
  PKCS5_PBKDF2_HMAC :: "byte list \<Rightarrow> int \<Rightarrow> byte list \<Rightarrow> int \<Rightarrow> int \<Rightarrow> int \<Rightarrow> byte list"
  EVP_EncryptInit_ex :: "byte list \<Rightarrow> byte list \<Rightarrow> 'ctx"
  EVP_EncryptUpdate :: "'ctx \<Rightarrow> byte list \<Rightarrow> int \<Rightarrow> 'ctx \<times> byte list"
  EVP_EncryptFinal_ex :: "'ctx \<Rightarrow> 'ctx \<times> byte list"
  EVP_CTRL_GCM_GET_TAG :: "'ctx \<Rightarrow> byte list"
  EVP_DecryptInit_ex :: "byte list \<Rightarrow> byte list \<Rightarrow> 'ctx"
  EVP_DecryptUpdate :: "'ctx \<Rightarrow> byte list \<Rightarrow> int \<Rightarrow> 'ctx \<times> byte list"
  EVP_CTRL_GCM_SET_TAG :: "'ctx \<Rightarrow> byte list \<Rightarrow> 'ctx"
  EVP_DecryptFinal_ex :: "'ctx \<Rightarrow> byte list \<times> int"

text \<open>
  What the service relies on from AES-256-GCM, for every 32-byte key, 12-byte nonce and
  input of which \<open>inl\<close> bytes are encrypted: the ciphertext has \<open>inl\<close> bytes, finalising adds none, the
  tag has 16 bytes, and decrypting that ciphertext under the same key and nonce with that
  tag gives the \<open>inl\<close> bytes back, adds none on finalising and returns a positive value.
\<close>

definition gcm_contract :: "'ctx openssl \<Rightarrow> bool" where
  "gcm_contract ossl \<longleftrightarrow>
    (\<forall>key iv inp inl.
      length key = 32 \<and> length iv = 12 \<and> 0 \<le> inl \<and> nat inl \<le> length inp \<longrightarrow>
      (let (c1, out) = EVP_EncryptUpdate ossl (EVP_EncryptInit_ex ossl key iv) inp inl;
           (c2, fin) = EVP_EncryptFinal_ex ossl c1;
           tag = EVP_CTRL_GCM_GET_TAG ossl c2;
           (d1, pt) = EVP_DecryptUpdate ossl (EVP_DecryptInit_ex ossl key iv) out (int (length out));
           (pfin, ret) = EVP_DecryptFinal_ex ossl (EVP_CTRL_GCM_SET_TAG ossl d1 tag)
       in length out = nat inl \<and> fin = [] \<and> length tag = 16 \<and>
          pt = take (nat inl) inp \<and> pfin = [] \<and> 0 < ret))"

section \<open>Buffers\<close>

text \<open>
  \<open>store buf off src\<close>: the buffer after \<open>src\<close> has been written at offset \<open>off\<close>
  (a write beyond its end, a buffer overflow in C++, makes the list longer).
  \<open>resize n buf\<close>: \<^verbatim>\<open>std::vector::resize\<close>, which cuts the vector or fills it with zeros.
\<close>

definition store :: "byte list \<Rightarrow> nat \<Rightarrow> byte list \<Rightarrow> byte list" where
  "store buf off src = take off buf @ src @ drop (off + length src) buf"

definition resize :: "nat \<Rightarrow> byte list \<Rightarrow> byte list" where
  "resize n buf = take n buf @ replicate (n - length buf) 0"

section \<open>EncryptionManager\<close>

text \<open>
  The two members of the class, \<^verbatim>\<open>key_\<close> and \<^verbatim>\<open>salt_\<close> (a name cannot end with an
  underscore here).
\<close>

record encryption_manager =
  key :: "byte list"
  salt :: "byte list"

text \<open>
  Lines 762-778. The vector has 32 zero bytes; for a secret that is not empty,
  \<^verbatim>\<open>PKCS5_PBKDF2_HMAC\<close> writes \<^verbatim>\<open>keylen = 32\<close> bytes into it. The lengths of the
  secret and of the salt are passed as \<^verbatim>\<open>int\<close>s.
\<close>

definition derive_key :: "'ctx openssl \<Rightarrow> encryption_manager \<Rightarrow> byte list \<Rightarrow> byte list" where
  "derive_key ossl this master_key =
    (let key0 = replicate 32 0
     in if master_key \<noteq> []
        then store key0 0
               (take 32 (PKCS5_PBKDF2_HMAC ossl master_key (to_int (length master_key))
                           (salt this) (to_int (length (salt this))) 100000 32))
        else key0)"

text \<open>Lines 757-760, the constructor: the members start empty.\<close>

definition EncryptionManager :: "'ctx openssl \<Rightarrow> byte list \<Rightarrow> encryption_manager" where
  "EncryptionManager ossl master_key =
    (let this0 = \<lparr>key = [], salt = str ''eaglearn_salt_v1''\<rparr>
     in this0\<lparr>key := derive_key ossl this0 master_key\<rparr>)"

text \<open>
  Lines 789-821 of \<^verbatim>\<open>encrypt\<close>: the binary envelope. \<open>nonce\<close> is the content of the
  12-byte array after \<^verbatim>\<open>RAND_bytes\<close>. The length of the plaintext is held in an \<^verbatim>\<open>int\<close>;
  the size of the ciphertext vector is that \<^verbatim>\<open>int\<close> plus 16, converted to \<^verbatim>\<open>size_t\<close>, so a
  negative value asks for more than \<^verbatim>\<open>max_size()\<close>.
\<close>

definition encrypt_envelope ::
  "'ctx openssl \<Rightarrow> encryption_manager \<Rightarrow> byte list \<Rightarrow> byte list \<Rightarrow> error + byte list" where
  "encrypt_envelope ossl this nonce plaintext =
    (let ctx = EVP_EncryptInit_ex ossl (key this) nonce;
         plaintext_len = to_int (length plaintext);
         n = int_add plaintext_len 16
     in if n < 0 then Inl LengthError
        else
          (let ciphertext = replicate (nat n) 0;
               (ctx1, out) = EVP_EncryptUpdate ossl ctx plaintext plaintext_len;
               ciphertext1 = store ciphertext 0 out;
               update_len = int (length out);
               (ctx2, fin) = EVP_EncryptFinal_ex ossl ctx1;
               ciphertext2 = store ciphertext1 (nat update_len) fin;
               total_len = int_add update_len (int (length fin))
           in if total_len < 0 then Inl LengthError
              else
                (let ciphertext3 = resize (nat total_len) ciphertext2;
                     tag = EVP_CTRL_GCM_GET_TAG ossl ctx2
                 in Inr (nonce @ tag @ ciphertext3))))"

text \<open>Lines 780-839.\<close>

definition encrypt ::
  "'ctx openssl \<Rightarrow> encryption_manager \<Rightarrow> byte list \<Rightarrow> byte list \<Rightarrow> error + byte list" where
  "encrypt ossl this nonce plaintext =
    (if plaintext = [] then Inr plaintext
     else if key this = [] then Inl KeyNotConfigured
     else (case encrypt_envelope ossl this nonce plaintext of
             Inl e \<Rightarrow> Inl e
           | Inr encrypted_data \<Rightarrow> Inr (b64_encode encrypted_data)))"

text \<open>
  Lines 890-913 of \<^verbatim>\<open>decrypt\<close>, on an envelope of at least 28 bytes: the plaintext
  buffer, the two lengths OpenSSL reports, and the return value of
  \<^verbatim>\<open>EVP_DecryptFinal_ex\<close>. The size of the ciphertext is passed as an \<^verbatim>\<open>int\<close>.
\<close>

definition gcm_decrypt ::
  "'ctx openssl \<Rightarrow> encryption_manager \<Rightarrow> byte list \<Rightarrow> byte list \<times> int \<times> int \<times> int" where
  "gcm_decrypt ossl this encrypted_data =
    (let ciphertext = drop 28 encrypted_data;
         nonce = take 12 encrypted_data;
         tag = take 16 (drop 12 encrypted_data);
         ctx = EVP_DecryptInit_ex ossl (key this) nonce;
         plaintext = replicate (length ciphertext) 0;
         (ctx1, out) = EVP_DecryptUpdate ossl ctx ciphertext (to_int (length ciphertext));
         plaintext1 = store plaintext 0 out;
         update_len = int (length out);
         ctx2 = EVP_CTRL_GCM_SET_TAG ossl ctx1 tag;
         (fin, ret) = EVP_DecryptFinal_ex ossl ctx2;
         plaintext2 = store plaintext1 (nat update_len) fin
     in (plaintext2, update_len, int (length fin), ret))"

text \<open>The return value of \<^verbatim>\<open>EVP_DecryptFinal_ex\<close> on an envelope: the tag verifies when it is positive.\<close>

definition tag_check :: "'ctx openssl \<Rightarrow> encryption_manager \<Rightarrow> byte list \<Rightarrow> int" where
  "tag_check ossl this encrypted_data =
    (case gcm_decrypt ossl this encrypted_data of (plaintext, update_len, plaintext_len, ret) \<Rightarrow> ret)"

text \<open>Lines 886-922 of \<^verbatim>\<open>decrypt\<close>: from the decoded envelope to the result.\<close>

definition decrypt_envelope ::
  "'ctx openssl \<Rightarrow> encryption_manager \<Rightarrow> byte list \<Rightarrow> error + byte list" where
  "decrypt_envelope ossl this encrypted_data =
    (if length encrypted_data < 28 then Inl MalformedEnvelope
     else (case gcm_decrypt ossl this encrypted_data of
             (plaintext, update_len, plaintext_len, ret) \<Rightarrow>
               if ret \<le> 0 then Inl AuthenticationFailure
               else (let total_len = int_add update_len plaintext_len
                     in if total_len < 0 then Inl LengthError
                        else Inr (resize (nat total_len) plaintext))))"

text \<open>Lines 841-923.\<close>

definition decrypt ::
  "'ctx openssl \<Rightarrow> encryption_manager \<Rightarrow> byte list \<Rightarrow> error + byte list" where
  "decrypt ossl this encrypted =
    (if encrypted = [] then Inr encrypted
     else if key this = [] then Inl KeyNotConfigured
     else (case b64_decode encrypted of
             Inl e \<Rightarrow> Inl e
           | Inr encrypted_data \<Rightarrow> decrypt_envelope ossl this encrypted_data))"

section \<open>Auxiliary definitions for the proofs\<close>

text \<open>
  The four indices into \<open>b64_chars\<close> that a round of the encoding loop computes from the
  bytes \<open>b1\<close>, \<open>b2\<close>, \<open>b3\<close>, the four characters it appends at position \<open>i\<close>, and
  the bytes a round of the decoding loop appends for the characters \<open>e0\<close> to \<open>e3\<close>. They
  name parts of the two loops above, so that the lemmas about one round can be stated.
\<close>

definition sx1 :: "byte \<Rightarrow> nat" where
  "sx1 b1 = nat (drop_bit 2 (uint b1))"

definition sx2 :: "byte \<Rightarrow> byte \<Rightarrow> nat" where
  "sx2 b1 b2 = nat (push_bit 4 (uint b1 AND 0x03) OR drop_bit 4 (uint b2))"

definition sx3 :: "byte \<Rightarrow> byte \<Rightarrow> nat" where
  "sx3 b2 b3 = nat (push_bit 2 (uint b2 AND 0x0F) OR drop_bit 6 (uint b3))"

definition sx4 :: "byte \<Rightarrow> nat" where
  "sx4 b3 = nat (uint b3 AND 0x3F)"

definition enc_quad :: "byte list \<Rightarrow> nat \<Rightarrow> byte list" where
  "enc_quad d i =
    (let b1 = d ! i;
         b2 = (if i + 1 < length d then d ! (i + 1) else 0);
         b3 = (if i + 2 < length d then d ! (i + 2) else 0)
     in [b64_chars ! sx1 b1, b64_chars ! sx2 b1 b2,
         if i + 1 < length d then b64_chars ! sx3 b2 b3 else pad,
         if i + 2 < length d then b64_chars ! sx4 b3 else pad])"

definition dec_bytes :: "byte \<Rightarrow> byte \<Rightarrow> byte \<Rightarrow> byte \<Rightarrow> byte list" where
  "dec_bytes e0 e1 e2 e3 =
    (let b1 = lookup e0;
         b2 = lookup e1;
         b3 = (if e2 \<noteq> pad then lookup e2 else 0);
         b4 = (if e3 \<noteq> pad then lookup e3 else 0)
     in [word_of_int (push_bit 2 (uint b1) OR drop_bit 4 (uint b2))]
        @ (if e2 \<noteq> pad
           then [word_of_int (push_bit 4 (uint b2 AND 0x0F) OR drop_bit 2 (uint b3))] else [])
        @ (if e3 \<noteq> pad
           then [word_of_int (push_bit 6 (uint b3 AND 0x03) OR uint b4)] else []))"

text \<open>
  An instance of the OpenSSL parameters that meets \<open>gcm_contract\<close>: the ciphertext is the
  input with every byte xor-ed with a constant, the tag is 16 copies of a checksum of the
  key, the nonce and the ciphertext, and the key derivation returns the first bytes of
  the secret followed by the salt. It is no cipher; it shows that the contract can be
  met, and it is the instance at which the theorems below are evaluated.
\<close>

type_synonym xor_ctx = "byte list \<times> byte list \<times> byte list \<times> byte list"

definition sum_tag :: "byte list \<Rightarrow> byte list \<Rightarrow> byte list \<Rightarrow> byte list" where
  "sum_tag k iv d = replicate 16 (sum_list (k @ iv @ d) + 0xA5)"

definition xor_ossl :: "xor_ctx openssl" where
  "xor_ossl =
    \<lparr>PKCS5_PBKDF2_HMAC = (\<lambda>pass passlen salt saltlen iter keylen.
        take (nat keylen)
          (take (nat passlen) pass @ take (nat saltlen) salt @ replicate (nat keylen) 0x5C)),
     EVP_EncryptInit_ex = (\<lambda>k iv. (k, iv, [], [])),
     EVP_EncryptUpdate = (\<lambda>(k, iv, d, t) inp inl.
        (let out = map (\<lambda>b. b XOR 0x2A) (take (nat inl) inp) in ((k, iv, d @ out, t), out))),
     EVP_EncryptFinal_ex = (\<lambda>ctx. (ctx, [])),
     EVP_CTRL_GCM_GET_TAG = (\<lambda>(k, iv, d, t). sum_tag k iv d),
     EVP_DecryptInit_ex = (\<lambda>k iv. (k, iv, [], [])),
     EVP_DecryptUpdate = (\<lambda>(k, iv, d, t) inp inl.
        (let ct = take (nat inl) inp in ((k, iv, d @ ct, t), map (\<lambda>b. b XOR 0x2A) ct))),
     EVP_CTRL_GCM_SET_TAG = (\<lambda>(k, iv, d, t) tag. (k, iv, d, tag)),
     EVP_DecryptFinal_ex = (\<lambda>(k, iv, d, t). ([], if t = sum_tag k iv d then 1 else 0))\<rparr>"

section \<open>The codec: one round of each loop\<close>

declare b64_encode_loop.simps [simp del] b64_decode_loop.simps [simp del]

lemma uint_byte_bounds: "0 \<le> uint (b::byte)" "uint (b::byte) < 256"
  using uint_bounded[of b] by simp_all

lemma nat_lt64: "0 \<le> (x::int) \<Longrightarrow> x < 64 \<Longrightarrow> nat x < 64"
  by linarith

lemma or_lt64: "0 \<le> (x::int) \<Longrightarrow> x < 64 \<Longrightarrow> 0 \<le> y \<Longrightarrow> y < 64 \<Longrightarrow> 0 \<le> x OR y \<and> x OR y < 64"
  using OR_upper[of x 6 y] by simp

lemma sextet_bound1: "nat (drop_bit 2 (uint (b1::byte))) < 64"
proof -
  have "drop_bit 2 (uint b1) < 64"
    using uint_byte_bounds[of b1] by (simp add: drop_bit_eq_div)
  then show ?thesis by (intro nat_lt64) simp_all
qed

lemma sextet_bound2:
  "nat (push_bit 4 (uint (b1::byte) AND 0x03) OR drop_bit 4 (uint (b2::byte))) < 64"
proof -
  have a: "0 \<le> uint b1 AND 3" "uint b1 AND 3 \<le> 3"
    by (simp_all add: AND_upper2')
  have x: "0 \<le> push_bit 4 (uint b1 AND 3)" "push_bit 4 (uint b1 AND 3) < 64"
    using a by (simp_all add: push_bit_eq_mult)
  have "drop_bit 4 (uint b2) < 64"
    using uint_byte_bounds[of b2] by (simp add: drop_bit_eq_div)
  then have y: "0 \<le> drop_bit 4 (uint b2)" "drop_bit 4 (uint b2) < 64"
    by simp_all
  show ?thesis using or_lt64[OF x y] by (intro nat_lt64) simp_all
qed

lemma sextet_bound3:
  "nat (push_bit 2 (uint (b2::byte) AND 0x0F) OR drop_bit 6 (uint (b3::byte))) < 64"
proof -
  have a: "0 \<le> uint b2 AND 15" "uint b2 AND 15 \<le> 15"
    by (simp_all add: AND_upper2')
  have x: "0 \<le> push_bit 2 (uint b2 AND 15)" "push_bit 2 (uint b2 AND 15) < 64"
    using a by (simp_all add: push_bit_eq_mult)
  have "drop_bit 6 (uint b3) < 64"
    using uint_byte_bounds[of b3] by (simp add: drop_bit_eq_div)
  then have y: "0 \<le> drop_bit 6 (uint b3)" "drop_bit 6 (uint b3) < 64"
    by simp_all
  show ?thesis using or_lt64[OF x y] by (intro nat_lt64) simp_all
qed

lemma sextet_bound4: "nat (uint (b3::byte) AND 0x3F) < 64"
proof -
  have "0 \<le> uint b3 AND 63" "uint b3 AND 63 \<le> 63"
    by (simp_all add: AND_upper2')
  then show ?thesis by (intro nat_lt64) simp_all
qed

lemma sx_bounds: "sx1 b1 < 64" "sx2 b1 b2 < 64" "sx3 b2 b3 < 64" "sx4 b3 < 64"
  unfolding sx1_def sx2_def sx3_def sx4_def
  by (rule sextet_bound1 sextet_bound2 sextet_bound3 sextet_bound4)+

lemma b64_chars_length: "length b64_chars = 64"
  by (simp add: b64_chars_def str_def)

lemma b64_chars_unfold:
  "b64_chars =
     [65,66,67,68,69,70,71,72,73,74,75,76,77] @ [78,79,80,81,82,83,84,85,86,87,88,89,90] @
     [97,98,99,100,101,102,103,104,105,106,107,108,109] @
     [110,111,112,113,114,115,116,117,118,119,120,121,122] @
     [48,49,50,51,52,53,54,55,56,57,43,47]"
  by (simp add: b64_chars_def str_def)

lemma table_inverse_all:
  "list_all (\<lambda>k. lookup (b64_chars ! k) = of_nat k \<and> b64_chars ! k \<noteq> pad) [0..<64]"
  unfolding b64_chars_unfold
  by (simp add: lookup_def b64_decode_map_def pad_def upt_rec)

lemma table_inverse:
  assumes "k < 64"
  shows "lookup (b64_chars ! k) = of_nat k" and "b64_chars ! k \<noteq> pad"
  using table_inverse_all assms by (auto simp: list_all_iff)

lemma lt8: "(n::nat) < 8 \<longleftrightarrow> n \<in> {0, 1, 2, 3, 4, 5, 6, 7}"
  by auto

lemma Suc_nums: "Suc (Suc 0) = 2" "Suc (Suc (Suc 0)) = 3" "Suc (Suc (Suc (Suc 0))) = 4"
  "Suc (Suc (Suc (Suc (Suc 0)))) = 5" "Suc (Suc (Suc (Suc (Suc (Suc 0))))) = 6"
  "Suc (Suc (Suc (Suc (Suc (Suc (Suc 0)))))) = 7"
  by simp_all

lemma bytes1: 
  "word_of_int (push_bit 2 (uint (of_nat (sx1 b1) :: byte)) OR drop_bit 4 (uint (of_nat (sx2 b1 b2) :: byte))) = b1"
  unfolding sx1_def sx2_def
  apply (rule bit_word_eqI)
  apply (auto simp add: bit_simps lt8 Suc_nums dest: bit_imp_le_length)
  done

lemma bytes2: 
  "word_of_int (push_bit 4 (uint (of_nat (sx2 b1 b2) :: byte) AND 0x0F) OR drop_bit 2 (uint (of_nat (sx3 b2 b3) :: byte))) = b2"
  unfolding sx3_def sx2_def
  apply (rule bit_word_eqI)
  apply (auto simp add: bit_simps lt8 Suc_nums dest: bit_imp_le_length)
  done

lemma bytes3: 
  "word_of_int (push_bit 6 (uint (of_nat (sx3 b2 b3) :: byte) AND 0x03) OR uint (of_nat (sx4 b3) :: byte)) = b3"
  unfolding sx3_def sx4_def
  apply (rule bit_word_eqI)
  apply (auto simp add: bit_simps lt8 Suc_nums dest: bit_imp_le_length)
  done

lemma encode_loop_step:
  "i < length d \<Longrightarrow> b64_encode_loop d i r = b64_encode_loop d (i + 3) (r @ enc_quad d i)"
  by (subst b64_encode_loop.simps) (simp add: Let_def enc_quad_def sx1_def sx2_def sx3_def sx4_def)

lemma encode_loop_stop:
  "\<not> i < length d \<Longrightarrow> b64_encode_loop d i r = r"
  by (subst b64_encode_loop.simps) simp

lemma encode_loop_acc:
  "b64_encode_loop d i (r @ r') = r @ b64_encode_loop d i r'"
proof (induction "length d - i" arbitrary: i r' rule: less_induct)
  case less
  show ?case
  proof (cases "i < length d")
    case True
    then have "length d - (i + 3) < length d - i" by arith
    from less[OF this, of "r' @ enc_quad d i"] True show ?thesis
      by (simp add: encode_loop_step)
  next
    case False
    then show ?thesis by (simp add: encode_loop_stop)
  qed
qed

lemma enc_quad_shift: "enc_quad (x # d) (Suc i) = enc_quad d i"
  by (simp add: enc_quad_def)

lemma encode_loop_shift:
  "b64_encode_loop (x # d) (Suc i) r = b64_encode_loop d i r"
proof (induction "length d - i" arbitrary: i r rule: less_induct)
  case less
  show ?case
  proof (cases "i < length d")
    case True
    then have "length d - (i + 3) < length d - i" by arith
    from less[OF this, of "r @ enc_quad d i"] True show ?thesis
      by (simp add: encode_loop_step enc_quad_shift)
  next
    case False
    then show ?thesis by (simp add: encode_loop_stop)
  qed
qed

lemma b64_encode_Nil: "b64_encode [] = []"
  by (simp add: b64_encode_def encode_loop_stop)

lemma b64_encode_1: "b64_encode [b1] = [b64_chars ! sx1 b1, b64_chars ! sx2 b1 0, pad, pad]"
  by (simp add: b64_encode_def encode_loop_step encode_loop_stop enc_quad_def)

lemma b64_encode_2:
  "b64_encode [b1, b2] = [b64_chars ! sx1 b1, b64_chars ! sx2 b1 b2, b64_chars ! sx3 b2 0, pad]"
  by (simp add: b64_encode_def encode_loop_step encode_loop_stop enc_quad_def)

lemma b64_encode_3:
  "b64_encode (b1 # b2 # b3 # rest) =
     [b64_chars ! sx1 b1, b64_chars ! sx2 b1 b2, b64_chars ! sx3 b2 b3, b64_chars ! sx4 b3]
     @ b64_encode rest"
proof -
  let ?q = "[b64_chars ! sx1 b1, b64_chars ! sx2 b1 b2, b64_chars ! sx3 b2 b3, b64_chars ! sx4 b3]"
  have "b64_encode (b1 # b2 # b3 # rest) = b64_encode_loop (b1 # b2 # b3 # rest) 3 ?q"
    by (simp add: b64_encode_def encode_loop_step enc_quad_def)
  also have "\<dots> = ?q @ b64_encode_loop (b1 # b2 # b3 # rest) (Suc (Suc (Suc 0))) []"
    using encode_loop_acc[of _ _ ?q "[]"] by (simp add: numeral_3_eq_3)
  also have "\<dots> = ?q @ b64_encode rest"
    by (simp only: encode_loop_shift b64_encode_def)
  finally show ?thesis .
qed

lemma list3_cases:
  obtains "d = []" | b1 where "d = [b1]" | b1 b2 where "d = [b1, b2]"
  | b1 b2 b3 rest where "d = b1 # b2 # b3 # rest"
  by (metis list.exhaust)

lemma b64_encode_nonempty: "d \<noteq> [] \<Longrightarrow> b64_encode d \<noteq> []"
  by (cases d rule: list3_cases) (simp_all add: b64_encode_1 b64_encode_2 b64_encode_3)

lemma decode_loop_step:
  "i + 3 \<le> length s \<Longrightarrow>
   b64_decode_loop s i acc =
   b64_decode_loop s (i + 4)
     (acc @ dec_bytes (s ! i) (s ! (i + 1)) (s ! (i + 2)) (if i + 3 < length s then s ! (i + 3) else 0))"
  by (subst b64_decode_loop.simps) (auto simp add: Let_def dec_bytes_def str_at_def)

lemma decode_loop_stop:
  "\<not> i < length s \<Longrightarrow> b64_decode_loop s i acc = Inr acc"
  by (subst b64_decode_loop.simps) simp

lemma decode_loop_oob:
  "i < length s \<Longrightarrow> length s < i + 3 \<Longrightarrow> b64_decode_loop s i acc = Inl OutOfBoundsRead"
  by (subst b64_decode_loop.simps) (auto simp add: Let_def str_at_def split: option.splits)

lemma dec_bytes_3:
  "dec_bytes (b64_chars ! sx1 b1) (b64_chars ! sx2 b1 b2) (b64_chars ! sx3 b2 b3) (b64_chars ! sx4 b3)
   = [b1, b2, b3]"
  unfolding dec_bytes_def Let_def
  by (simp only: table_inverse sx_bounds bytes1 bytes2 bytes3 if_True simp_thms append.simps)

lemma dec_bytes_2:
  "dec_bytes (b64_chars ! sx1 b1) (b64_chars ! sx2 b1 b2) (b64_chars ! sx3 b2 0) pad = [b1, b2]"
  unfolding dec_bytes_def Let_def
  by (simp only: table_inverse sx_bounds bytes1 bytes2 if_True if_False simp_thms append.simps)

lemma dec_bytes_1:
  "dec_bytes (b64_chars ! sx1 b1) (b64_chars ! sx2 b1 0) pad pad = [b1]"
  unfolding dec_bytes_def Let_def
  by (simp only: table_inverse sx_bounds bytes1 if_True if_False simp_thms append.simps)

lemma decode_encode_loop:
  "b64_decode_loop (pre @ b64_encode d) (length pre) acc = Inr (acc @ d)"
proof (induction "length d" arbitrary: d pre acc rule: less_induct)
  case less
  show ?case
  proof (cases d rule: list3_cases)
    case 1
    then show ?thesis by (simp add: b64_encode_Nil decode_loop_stop)
  next
    case (2 b1)
    then show ?thesis
      by (simp add: b64_encode_1 decode_loop_step decode_loop_stop nth_append dec_bytes_1)
  next
    case (3 b1 b2)
    then show ?thesis
      by (simp add: b64_encode_2 decode_loop_step decode_loop_stop nth_append dec_bytes_2)
  next
    case (4 b1 b2 b3 rest)
    let ?q = "[b64_chars ! sx1 b1, b64_chars ! sx2 b1 b2, b64_chars ! sx3 b2 b3, b64_chars ! sx4 b3]"
    have idx: "length pre + 4 = length (pre @ ?q)" by simp
    have "length rest < length d" using 4 by simp
    then have IH: "b64_decode_loop ((pre @ ?q) @ b64_encode rest) (length (pre @ ?q)) (acc @ [b1, b2, b3])
              = Inr ((acc @ [b1, b2, b3]) @ rest)"
      by (rule less)
    have "b64_decode_loop (pre @ b64_encode d) (length pre) acc
          = b64_decode_loop (pre @ ?q @ b64_encode rest) (length pre) acc"
      by (simp only: 4 b64_encode_3)
    also have "\<dots> = b64_decode_loop (pre @ ?q @ b64_encode rest) (length pre + 4) (acc @ [b1, b2, b3])"
      by (subst decode_loop_step) (simp_all add: nth_append dec_bytes_3)
    also have "\<dots> = b64_decode_loop ((pre @ ?q) @ b64_encode rest) (length (pre @ ?q)) (acc @ [b1, b2, b3])"
      by (simp only: idx append_assoc)
    also have "\<dots> = Inr ((acc @ [b1, b2, b3]) @ rest)"
      by (rule IH)
    also have "\<dots> = Inr (acc @ d)"
      by (simp add: 4)
    finally show ?thesis .
  qed
qed

text \<open>
  C8. The text codec round-trips: for every byte sequence \<open>x\<close>, the empty one included,
  the decoding loop of \<^verbatim>\<open>decrypt\<close> applied to the output of the encoding loop of
  \<^verbatim>\<open>encrypt\<close> returns exactly \<open>x\<close>, without an error.
\<close>

theorem codec_roundtrip: "b64_decode (b64_encode x) = Inr x"
  using decode_encode_loop[of "[]" x "[]"] by (simp add: b64_decode_def)

section \<open>Conversions to int\<close>

lemma int_add_eq: "int_add a b = (a + b + 2 ^ 31) mod 2 ^ 32 - 2 ^ 31"
  unfolding int_add_def int_word_sint by simp

lemma to_int_eq: "to_int n = (int n + 2 ^ 31) mod 2 ^ 32 - 2 ^ 31"
proof -
  have "(word_of_nat n :: 32 word) = word_of_int (int n)" by simp
  then show ?thesis unfolding to_int_def by (simp only: int_word_sint) simp
qed

lemma int_add_small: "- (2 ^ 31) \<le> a + b \<Longrightarrow> a + b < 2 ^ 31 \<Longrightarrow> int_add a b = a + b"
  unfolding int_add_eq by simp

lemma to_int_small: "n < 2 ^ 31 \<Longrightarrow> to_int n = int n"
  unfolding to_int_eq by simp

lemma to_int_range: "- (2 ^ 31) \<le> to_int n" "to_int n < 2 ^ 31"
  unfolding to_int_eq
  using pos_mod_bound[of "2 ^ 32" "int n + 2 ^ 31"] pos_mod_sign[of "2 ^ 32" "int n + 2 ^ 31"]
  by simp_all

lemma to_int_le: "nat (to_int n) \<le> n"
proof -
  have "(int n + 2 ^ 31) mod 2 ^ 32 \<le> int n + 2 ^ 31"
    by (rule zmod_le_nonneg_dividend) simp
  then show ?thesis unfolding to_int_eq by simp
qed

lemma to_int_wrapped: "to_int 4294967301 = 5"
  by (simp add: to_int_def)

section \<open>Encrypting and decrypting under the contract\<close>

lemma store_resize_out:
  assumes "length out \<le> m"
  shows "resize (length out) (store (store (replicate m 0) 0 out) (length out) []) = out"
  using assms by (simp add: store_def resize_def)

lemma gcm_contractD:
  assumes "gcm_contract ossl" and "length k = 32" and "length iv = 12"
    and "0 \<le> inl" and "nat inl \<le> length inp"
  obtains c1 out c2 tag d1 ret where
    "EVP_EncryptUpdate ossl (EVP_EncryptInit_ex ossl k iv) inp inl = (c1, out)"
    "EVP_EncryptFinal_ex ossl c1 = (c2, [])"
    "EVP_CTRL_GCM_GET_TAG ossl c2 = tag"
    "length out = nat inl" "length tag = 16"
    "EVP_DecryptUpdate ossl (EVP_DecryptInit_ex ossl k iv) out (int (length out))
       = (d1, take (nat inl) inp)"
    "EVP_DecryptFinal_ex ossl (EVP_CTRL_GCM_SET_TAG ossl d1 tag) = ([], ret)" "0 < ret"
proof -
  from assms have
    "(let (c1, out) = EVP_EncryptUpdate ossl (EVP_EncryptInit_ex ossl k iv) inp inl;
           (c2, fin) = EVP_EncryptFinal_ex ossl c1;
           tag = EVP_CTRL_GCM_GET_TAG ossl c2;
           (d1, pt) = EVP_DecryptUpdate ossl (EVP_DecryptInit_ex ossl k iv) out (int (length out));
           (pfin, ret) = EVP_DecryptFinal_ex ossl (EVP_CTRL_GCM_SET_TAG ossl d1 tag)
       in length out = nat inl \<and> fin = [] \<and> length tag = 16 \<and>
          pt = take (nat inl) inp \<and> pfin = [] \<and> 0 < ret)"
    unfolding gcm_contract_def by blast
  then show thesis
    using that by (auto simp: Let_def split: prod.splits)
qed

lemma seal_open:
  assumes c: "gcm_contract ossl"
    and k32: "length (key this) = 32"
    and n12: "length nonce = 12"
    and nonneg: "0 \<le> to_int (length plaintext)"
    and fits: "to_int (length plaintext) + 16 < 2 ^ 31"
  shows "\<exists>tag ciphertext ret.
      encrypt_envelope ossl this nonce plaintext = Inr (nonce @ tag @ ciphertext)
    \<and> length tag = 16
    \<and> length ciphertext = nat (to_int (length plaintext))
    \<and> gcm_decrypt ossl this (nonce @ tag @ ciphertext)
        = (take (nat (to_int (length plaintext))) plaintext, to_int (length plaintext), 0, ret)
    \<and> 0 < ret"
proof -
  let ?L = "to_int (length plaintext)"
  from gcm_contractD[OF c k32 n12 nonneg to_int_le]
  obtain c1 out c2 tag d1 ret where
    eu: "EVP_EncryptUpdate ossl (EVP_EncryptInit_ex ossl (key this) nonce) plaintext ?L = (c1, out)"
    and ef: "EVP_EncryptFinal_ex ossl c1 = (c2, [])"
    and gt: "EVP_CTRL_GCM_GET_TAG ossl c2 = tag"
    and lo: "length out = nat ?L" and lt: "length tag = 16"
    and du: "EVP_DecryptUpdate ossl (EVP_DecryptInit_ex ossl (key this) nonce) out (int (length out))
       = (d1, take (nat ?L) plaintext)"
    and df: "EVP_DecryptFinal_ex ossl (EVP_CTRL_GCM_SET_TAG ossl d1 tag) = ([], ret)"
    and ret: "0 < ret"
    by blast
  have n: "int_add ?L 16 = ?L + 16"
    using nonneg fits by (intro int_add_small) simp_all
  have lo': "int (length out) = ?L" using lo nonneg by simp
  have tl: "int_add (int (length out)) (int (length ([]::byte list))) = ?L"
    using nonneg fits lo' by (simp add: int_add_small)
  have le: "length out \<le> nat (?L + 16)" using lo nonneg by simp
  have env: "encrypt_envelope ossl this nonce plaintext = Inr (nonce @ tag @ out)"
    using nonneg tl store_resize_out[OF le] lo
    by (simp add: encrypt_envelope_def Let_def n eu ef gt)
  have "int (length out) < 2 ^ 31" using lo' fits by linarith
  then have "length out < 2 ^ 31" by simp
  then have tl2: "to_int (length out) = int (length out)"
    by (rule to_int_small)
  have lpt: "length (take (nat ?L) plaintext) = nat ?L"
    using to_int_le[of "length plaintext"] by simp
  have dec: "gcm_decrypt ossl this (nonce @ tag @ out) = (take (nat ?L) plaintext, ?L, 0, ret)"
    using n12 lt du df tl2 lo lpt nonneg
    by (simp add: gcm_decrypt_def Let_def store_def)
  show ?thesis using env lt lo dec ret by blast
qed

lemma xor_comp: "(\<lambda>b::byte. b XOR 0x2A) \<circ> (\<lambda>b. b XOR 0x2A) = id"
  by (rule ext) (simp add: xor.assoc)

lemma xor_ossl_contract: "gcm_contract xor_ossl"
  unfolding gcm_contract_def xor_ossl_def
  by (auto simp: Let_def sum_tag_def xor_comp min_def)

lemma encrypt_decrypt_general:
  assumes c: "gcm_contract ossl"
    and k32: "length (key this) = 32"
    and n12: "length nonce = 12"
    and ne: "plaintext \<noteq> []"
    and nonneg: "0 \<le> to_int (length plaintext)"
    and fits: "to_int (length plaintext) + 16 < 2 ^ 31"
  shows "\<exists>encrypted. encrypt ossl this nonce plaintext = Inr encrypted
    \<and> decrypt ossl this encrypted = Inr (take (nat (to_int (length plaintext))) plaintext)"
proof -
  let ?L = "to_int (length plaintext)"
  have k: "key this \<noteq> []" using k32 by auto
  from seal_open[OF c k32 n12 nonneg fits]
  obtain tag ciphertext ret where
    env: "encrypt_envelope ossl this nonce plaintext = Inr (nonce @ tag @ ciphertext)"
    and lt: "length tag = 16" and lc: "length ciphertext = nat ?L"
    and dec: "gcm_decrypt ossl this (nonce @ tag @ ciphertext)
        = (take (nat ?L) plaintext, ?L, 0, ret)"
    and ret: "0 < ret"
    by blast
  let ?env = "nonce @ tag @ ciphertext"
  have e: "encrypt ossl this nonce plaintext = Inr (b64_encode ?env)"
    using k ne env by (simp add: encrypt_def)
  have "?env \<noteq> []" using n12 by auto
  then have ne': "b64_encode ?env \<noteq> []" by (rule b64_encode_nonempty)
  have tl: "int_add ?L 0 = ?L"
    using nonneg fits by (simp add: int_add_small)
  have lpt: "length (take (nat ?L) plaintext) = nat ?L"
    using to_int_le[of "length plaintext"] by simp
  have "decrypt_envelope ossl this ?env = Inr (take (nat ?L) plaintext)"
    using n12 lt dec ret tl nonneg lpt
    by (simp add: decrypt_envelope_def Let_def resize_def)
  then have "decrypt ossl this (b64_encode ?env) = Inr (take (nat ?L) plaintext)"
    using k ne' decode_encode_loop[of "[]" ?env "[]"] by (simp add: decrypt_def b64_decode_def)
  with e show ?thesis by blast
qed

lemma derive_key_length: "length (derive_key ossl this master_key) = 32"
  by (simp add: derive_key_def store_def Let_def)

lemma key_length: "length (key (EncryptionManager ossl master_key)) = 32"
  by (simp add: EncryptionManager_def Let_def derive_key_length)

lemma key_nonempty: "key (EncryptionManager ossl master_key) \<noteq> []"
  using key_length[of ossl master_key] by auto

section \<open>The service: construction and decoding\<close>

lemma salt_EncryptionManager: "salt (EncryptionManager ossl master_key) = str ''eaglearn_salt_v1''"
  by (simp add: EncryptionManager_def Let_def)

lemma key_EncryptionManager:
  "key (EncryptionManager ossl master_key) = derive_key ossl (EncryptionManager ossl other) master_key"
  by (simp add: EncryptionManager_def Let_def derive_key_def)

lemma key_of_empty_secret: "key (EncryptionManager ossl []) = replicate 32 0"
  by (simp add: EncryptionManager_def derive_key_def Let_def)

lemma salt_length: "to_int (length (str ''eaglearn_salt_v1'')) = 16"
  by (simp add: str_def to_int_def)

lemma decode_loop_no_key_error: "b64_decode_loop s i acc \<noteq> Inl KeyNotConfigured"
proof (induction "length s - i" arbitrary: i acc rule: less_induct)
  case less
  show ?case
  proof (cases "i < length s")
    case False
    then show ?thesis by (simp add: decode_loop_stop)
  next
    case True
    have "length s - (i + 4) < length s - i" using True by arith
    from less[OF this] show ?thesis
      by (subst b64_decode_loop.simps) (auto simp: Let_def split: option.splits)
  qed
qed

lemma rem_ge3: "n mod 4 = 0 \<or> n mod 4 = 3 \<Longrightarrow> 0 < n \<Longrightarrow> 3 \<le> (n::nat)"
  by (cases "n < 3") auto

lemma rem_step: "4 \<le> n \<Longrightarrow> (n - 4) mod 4 = n mod (4::nat)"
  by (simp add: le_mod_geq)

lemma decode_loop_total:
  assumes "i \<le> length s"
    and "(length s - i) mod 4 = 0 \<or> (length s - i) mod 4 = 3"
  shows "\<exists>d. b64_decode_loop s i acc = Inr d"
  using assms
proof (induction "length s - i" arbitrary: i acc rule: less_induct)
  case less
  show ?case
  proof (cases "i < length s")
    case False
    then show ?thesis by (simp add: decode_loop_stop)
  next
    case True
    then have "0 < length s - i" by simp
    with less.prems(2) have "3 \<le> length s - i" by (rule rem_ge3)
    then have three: "i + 3 \<le> length s" by simp
    let ?acc = "acc @ dec_bytes (s ! i) (s ! (i + 1)) (s ! (i + 2))
                  (if i + 3 < length s then s ! (i + 3) else 0)"
    have step: "b64_decode_loop s i acc = b64_decode_loop s (i + 4) ?acc"
      using three by (rule decode_loop_step)
    show ?thesis
    proof (cases "i + 4 \<le> length s")
      case True
      then have four: "4 \<le> length s - i" by simp
      have m: "length s - (i + 4) < length s - i" using True by simp
      have "length s - (i + 4) = length s - i - 4" by simp
      then have r: "(length s - (i + 4)) mod 4 = 0 \<or> (length s - (i + 4)) mod 4 = 3"
        using less.prems(2) rem_step[OF four] by simp
      from less.hyps[OF m True r, of ?acc] step show ?thesis by simp
    next
      case False
      then show ?thesis using step by (simp add: decode_loop_stop)
    qed
  qed
qed

lemma decode_total:
  "length encrypted mod 4 = 0 \<or> length encrypted mod 4 = 3 \<Longrightarrow>
   \<exists>encrypted_data. b64_decode encrypted = Inr encrypted_data"
  unfolding b64_decode_def using decode_loop_total[of 0 encrypted "[]"] by simp

lemma decrypt_envelope_malformed_iff:
  "decrypt_envelope ossl this encrypted_data = Inl MalformedEnvelope
   \<longleftrightarrow> length encrypted_data < 28"
  by (auto simp: decrypt_envelope_def Let_def split: prod.splits)

lemma decrypt_envelope_auth_iff:
  "28 \<le> length encrypted_data \<Longrightarrow>
   decrypt_envelope ossl this encrypted_data = Inl AuthenticationFailure
   \<longleftrightarrow> tag_check ossl this encrypted_data \<le> 0"
  by (auto simp: decrypt_envelope_def tag_check_def Let_def split: prod.splits)

section \<open>Evaluation at concrete inputs\<close>

lemma decode_zero_envelope:
  "b64_decode (str ''AAAAAAAAAAAAAAAAAAAAAAAAAAAAAAAAAAAAAAAA'') = Inr (replicate 30 0)"
  by code_simp

lemma decode_short_input: "b64_decode (str ''AAAA'') = Inr [0, 0, 0]"
  by code_simp

lemma decode_tag_only_envelope:
  "b64_decode (str ''AAAAAAAAAAAAAAAApaWlpaWlpaWlpaWlpaWlpQ=='')
     = Inr (replicate 12 0 @ replicate 16 0xA5)"
  by code_simp

lemma decode_bang_envelope:
  "b64_decode (str ''!!!!!!!!!!!!!!!!Hh4eHh4eHh4eHh4eHh4eHkJD'')
     = Inr (replicate 12 0xFF @ replicate 16 0x1E @ [0x42, 0x43])"
  by code_simp

lemma tag_check_zero_envelope:
  "tag_check xor_ossl (EncryptionManager xor_ossl []) (replicate 30 0) \<le> 0"
  by (simp add: tag_check_def gcm_decrypt_def xor_ossl_def sum_tag_def key_of_empty_secret
      Let_def to_int_def sum_list_replicate)

lemma xor_open_tag_only:
  "decrypt_envelope xor_ossl (EncryptionManager xor_ossl []) (replicate 12 0 @ replicate 16 0xA5)
   = Inr []"
  by (simp add: decrypt_envelope_def gcm_decrypt_def xor_ossl_def sum_tag_def key_of_empty_secret
      Let_def to_int_def store_def resize_def int_add_def sum_list_replicate)

lemma xor_open_hi:
  "decrypt_envelope xor_ossl (EncryptionManager xor_ossl [])
     (replicate 12 0xFF @ replicate 16 0x1E @ [0x42, 0x43]) = Inr (str ''hi'')"
  by (simp add: decrypt_envelope_def gcm_decrypt_def xor_ossl_def sum_tag_def key_of_empty_secret
      Let_def to_int_def store_def resize_def int_add_def sum_list_replicate str_def)

section \<open>Plaintexts whose length fits an int\<close>

text \<open>
  With OpenSSL meeting the contract, a 12-byte nonce and a plaintext of fewer than
  \<open>2 ^ 31 - 16\<close> bytes, a service constructed from any secret decrypts what it encrypted,
  and the envelope it builds is nonce, 16-byte tag and a ciphertext as long as the
  plaintext.
\<close>

lemma fits_int:
  assumes "length plaintext + 16 < 2 ^ 31"
  shows "to_int (length plaintext) = int (length plaintext)"
    and "0 \<le> to_int (length plaintext)"
    and "to_int (length plaintext) + 16 < 2 ^ 31"
proof -
  have lt: "length plaintext < 2 ^ 31" using assms by simp
  then show L: "to_int (length plaintext) = int (length plaintext)" by (rule to_int_small)
  show "0 \<le> to_int (length plaintext)" unfolding L by simp
  have "int (length plaintext + 16) < 2 ^ 31"
    using assms by (simp only: of_nat_less_numeral_power_cancel_iff)
  then show "to_int (length plaintext) + 16 < 2 ^ 31" unfolding L by simp
qed

lemma roundtrip_in_int_range:
  assumes "gcm_contract ossl" and "length nonce = 12"
    and "length plaintext + 16 < 2 ^ 31"
  shows "\<exists>encrypted. encrypt ossl (EncryptionManager ossl master_key) nonce plaintext = Inr encrypted
       \<and> decrypt ossl (EncryptionManager ossl master_key) encrypted = Inr plaintext"
proof (cases "plaintext = []")
  case True
  then show ?thesis by (simp add: encrypt_def decrypt_def)
next
  case False
  note f = fits_int[OF assms(3)]
  from encrypt_decrypt_general[OF assms(1) key_length[of ossl master_key] assms(2) False f(2,3)]
  show ?thesis unfolding f(1) by simp
qed

lemma roundtrip_in_int_range_example:
  "\<exists>encrypted.
     encrypt xor_ossl (EncryptionManager xor_ossl (str ''test-secret'')) (replicate 12 7)
       (str ''hello world'') = Inr encrypted
   \<and> decrypt xor_ossl (EncryptionManager xor_ossl (str ''test-secret'')) encrypted
       = Inr (str ''hello world'')"
  by (rule roundtrip_in_int_range[OF xor_ossl_contract]) (simp_all add: str_def)

lemma envelope_layout_in_int_range:
  assumes "gcm_contract ossl" and "length nonce = 12"
    and "length plaintext + 16 < 2 ^ 31"
  shows "\<exists>tag ciphertext.
      encrypt_envelope ossl (EncryptionManager ossl master_key) nonce plaintext
        = Inr (nonce @ tag @ ciphertext)
    \<and> length tag = 16 \<and> length ciphertext = length plaintext
    \<and> length (nonce @ tag @ ciphertext) = 28 + length plaintext"
proof -
  let ?m = "EncryptionManager ossl master_key"
  note f = fits_int[OF assms(3)]
  from seal_open[OF assms(1) key_length[of ossl master_key] assms(2) f(2,3)]
  obtain tag ciphertext where
    "encrypt_envelope ossl ?m nonce plaintext = Inr (nonce @ tag @ ciphertext)"
    "length tag = 16" "length ciphertext = length plaintext"
    unfolding f(1) by auto
  then have "encrypt_envelope ossl ?m nonce plaintext = Inr (nonce @ tag @ ciphertext)
    \<and> length tag = 16 \<and> length ciphertext = length plaintext
    \<and> length (nonce @ tag @ ciphertext) = 28 + length plaintext"
    using assms(2) by simp
  then show ?thesis by blast
qed

section \<open>The claims\<close>

text \<open>
  C6. \<^verbatim>\<open>encrypt\<close> of the empty string is the empty string and \<^verbatim>\<open>decrypt\<close> of the empty
  string is the empty string, whatever the service's key (even none), the nonce and the
  behaviour of OpenSSL: no envelope is built and nothing is decoded or decrypted.
\<close>

theorem empty_input_short_circuit:
  "encrypt ossl this nonce [] = Inr [] \<and> decrypt ossl this [] = Inr []"
  by (simp add: encrypt_def decrypt_def)

text \<open>
  C10. For every master secret, the empty one included, the constructor leaves a key of
  exactly 32 bytes (for the empty secret, 32 zero bytes), so neither \<^verbatim>\<open>encrypt\<close> nor
  \<^verbatim>\<open>decrypt\<close> of a constructed service ever fails with the key-not-configured error.
\<close>

theorem key_not_configured_unreachable:
  "length (key (EncryptionManager ossl master_key)) = 32
   \<and> key (EncryptionManager ossl []) = replicate 32 0
   \<and> encrypt ossl (EncryptionManager ossl master_key) nonce plaintext \<noteq> Inl KeyNotConfigured
   \<and> decrypt ossl (EncryptionManager ossl master_key) encrypted \<noteq> Inl KeyNotConfigured"
proof -
  have k: "key (EncryptionManager ossl master_key) \<noteq> []" by (rule key_nonempty)
  have e: "encrypt ossl (EncryptionManager ossl master_key) nonce plaintext \<noteq> Inl KeyNotConfigured"
    using k
    by (auto simp: encrypt_def encrypt_envelope_def Let_def split: sum.splits prod.splits if_splits)
  have d: "decrypt ossl (EncryptionManager ossl master_key) encrypted \<noteq> Inl KeyNotConfigured"
    using k decode_loop_no_key_error[of encrypted 0 "[]"]
    by (auto simp: decrypt_def decrypt_envelope_def b64_decode_def Let_def
             split: sum.splits prod.splits if_splits)
  show ?thesis using key_length key_of_empty_secret e d by blast
qed

text \<open>
  C9. Key derivation is deterministic: \<^verbatim>\<open>derive_key\<close> reads nothing but the secret and the
  fixed salt, so run on any two constructed services with the same secret it returns the
  same key, which is the key the constructor installs for that secret and has 32 bytes.
  It takes no nonce and no other random input.
\<close>

theorem derive_key_deterministic:
  "derive_key ossl (EncryptionManager ossl a) secret = derive_key ossl (EncryptionManager ossl b) secret
   \<and> key (EncryptionManager ossl secret) = derive_key ossl (EncryptionManager ossl a) secret
   \<and> length (derive_key ossl (EncryptionManager ossl a) secret) = 32"
  by (simp add: derive_key_def salt_EncryptionManager key_EncryptionManager[of _ _ a] store_def Let_def)

text \<open>
  C4, as stated, fails at the empty secret: \<^verbatim>\<open>derive_key\<close> does not call PBKDF2 there and
  returns 32 zero bytes, which is not what the key derivation of the instance below
  returns for the empty secret.
\<close>

theorem derive_key_empty_secret_counterexample:
  "derive_key xor_ossl (EncryptionManager xor_ossl []) []
     \<noteq> PKCS5_PBKDF2_HMAC xor_ossl [] 0 (str ''eaglearn_salt_v1'') 16 100000 32"
proof -
  have "hd (derive_key xor_ossl (EncryptionManager xor_ossl []) []) = 0"
    by (simp add: derive_key_def)
  moreover have "hd (PKCS5_PBKDF2_HMAC xor_ossl [] 0 (str ''eaglearn_salt_v1'') 16 100000 32) = 101"
    by (simp add: xor_ossl_def str_def)
  ultimately show ?thesis by auto
qed

text \<open>
  C4, amended. The salt has 16 bytes. For the empty secret \<^verbatim>\<open>derive_key\<close> returns 32 zero
  bytes. For every secret that is not empty and whose length fits an \<^verbatim>\<open>int\<close>, it returns
  exactly the 32 bytes that PBKDF2 with HMAC-SHA-256 writes for that secret, the fixed
  salt, 100000 iterations and a key length of 32.
\<close>

theorem derive_key_pbkdf2_unless_empty:
  "length (str ''eaglearn_salt_v1'') = 16
   \<and> derive_key ossl (EncryptionManager ossl other) [] = replicate 32 0
   \<and> (master_key \<noteq> [] \<and> length master_key < 2 ^ 31
        \<and> length (PKCS5_PBKDF2_HMAC ossl master_key (int (length master_key))
                    (str ''eaglearn_salt_v1'') 16 100000 32) = 32
      \<longrightarrow> derive_key ossl (EncryptionManager ossl other) master_key
          = PKCS5_PBKDF2_HMAC ossl master_key (int (length master_key))
              (str ''eaglearn_salt_v1'') 16 100000 32)"
  by (simp add: derive_key_def salt_EncryptionManager salt_length store_def Let_def to_int_small)
    (simp add: str_def)

text \<open>The amended C4 at the secret \<^verbatim>\<open>test-secret\<close>, with the instance's key derivation.\<close>

theorem derive_key_pbkdf2_unless_empty_witness:
  "length (str ''eaglearn_salt_v1'') = 16
   \<and> derive_key xor_ossl (EncryptionManager xor_ossl []) [] = replicate 32 0
   \<and> str ''test-secret'' \<noteq> [] \<and> length (str ''test-secret'') < 2 ^ 31
   \<and> length (PKCS5_PBKDF2_HMAC xor_ossl (str ''test-secret'') (int (length (str ''test-secret'')))
               (str ''eaglearn_salt_v1'') 16 100000 32) = 32
   \<and> derive_key xor_ossl (EncryptionManager xor_ossl []) (str ''test-secret'')
       = PKCS5_PBKDF2_HMAC xor_ossl (str ''test-secret'') (int (length (str ''test-secret'')))
           (str ''eaglearn_salt_v1'') 16 100000 32"
proof -
  have 1: "str ''test-secret'' \<noteq> []" and 2: "length (str ''test-secret'') < 2 ^ 31"
    by (simp_all add: str_def)
  have 3: "length (PKCS5_PBKDF2_HMAC xor_ossl (str ''test-secret'') (int (length (str ''test-secret'')))
               (str ''eaglearn_salt_v1'') 16 100000 32) = 32"
    by (simp add: xor_ossl_def str_def)
  from derive_key_pbkdf2_unless_empty[of xor_ossl "[]" "str ''test-secret''"] 1 2 3
  show ?thesis by simp
qed

text \<open>
  C2. Whenever the tag of a decoded envelope of at least 28 bytes does not verify, that
  is, \<^verbatim>\<open>EVP_DecryptFinal_ex\<close> returns a value that is not positive, \<^verbatim>\<open>decrypt\<close> fails with
  the authentication error and returns no plaintext at all.
\<close>

theorem auth_failure_fails_closed:
  assumes "key this \<noteq> []" and "encrypted \<noteq> []"
    and "b64_decode encrypted = Inr encrypted_data"
    and "28 \<le> length encrypted_data"
    and "tag_check ossl this encrypted_data \<le> 0"
  shows "decrypt ossl this encrypted = Inl AuthenticationFailure
       \<and> (\<forall>plaintext. decrypt ossl this encrypted \<noteq> Inr plaintext)"
  using assms
  by (auto simp: decrypt_def decrypt_envelope_def tag_check_def split: prod.splits)

text \<open>
  C2 at an envelope of 30 zero bytes, whose tag is not the one the instance computes.
\<close>

theorem auth_failure_fails_closed_witness:
  "key (EncryptionManager xor_ossl []) \<noteq> []
   \<and> str ''AAAAAAAAAAAAAAAAAAAAAAAAAAAAAAAAAAAAAAAA'' \<noteq> []
   \<and> b64_decode (str ''AAAAAAAAAAAAAAAAAAAAAAAAAAAAAAAAAAAAAAAA'') = Inr (replicate 30 0)
   \<and> 28 \<le> length (replicate 30 (0::byte))
   \<and> tag_check xor_ossl (EncryptionManager xor_ossl []) (replicate 30 0) \<le> 0
   \<and> decrypt xor_ossl (EncryptionManager xor_ossl [])
         (str ''AAAAAAAAAAAAAAAAAAAAAAAAAAAAAAAAAAAAAAAA'') = Inl AuthenticationFailure"
proof -
  have 1: "key (EncryptionManager xor_ossl []) \<noteq> []" by (rule key_nonempty)
  have 2: "str ''AAAAAAAAAAAAAAAAAAAAAAAAAAAAAAAAAAAAAAAA'' \<noteq> []" by (simp add: str_def)
  note 3 = decode_zero_envelope
  have 4: "28 \<le> length (replicate 30 (0::byte))" by simp
  note 5 = tag_check_zero_envelope
  have 6: "decrypt xor_ossl (EncryptionManager xor_ossl [])
         (str ''AAAAAAAAAAAAAAAAAAAAAAAAAAAAAAAAAAAAAAAA'') = Inl AuthenticationFailure"
    by (rule auth_failure_fails_closed[OF 1 2 3 4 5, THEN conjunct1])
  show ?thesis by (intro conjI 1 2 3 4 5 6)
qed

text \<open>
  C5, as stated, fails at an input that decodes to exactly 28 bytes: 12 zero bytes of
  nonce and the 16 bytes of the tag the instance computes for the empty ciphertext under
  the key of the empty secret. The length check lets it pass, and \<^verbatim>\<open>decrypt\<close> returns
  the empty plaintext: a zero-length ciphertext accepted through this path.
\<close>

theorem zero_length_ciphertext_counterexample:
  "b64_decode (str ''AAAAAAAAAAAAAAAApaWlpaWlpaWlpaWlpaWlpQ=='')
     = Inr (replicate 12 0 @ replicate 16 0xA5)
   \<and> length (replicate 12 (0::byte) @ replicate 16 0xA5) = 28
   \<and> decrypt xor_ossl (EncryptionManager xor_ossl [])
         (str ''AAAAAAAAAAAAAAAApaWlpaWlpaWlpaWlpaWlpQ=='') = Inr []"
proof -
  have n: "str ''AAAAAAAAAAAAAAAApaWlpaWlpaWlpaWlpaWlpQ=='' \<noteq> []" by (simp add: str_def)
  have l: "length (replicate 12 (0::byte) @ replicate 16 0xA5) = 28" by simp
  have "decrypt xor_ossl (EncryptionManager xor_ossl [])
         (str ''AAAAAAAAAAAAAAAApaWlpaWlpaWlpaWlpaWlpQ=='') = Inr []"
    unfolding decrypt_def using n key_nonempty[of xor_ossl "[]"]
    by (simp add: decode_tag_only_envelope xor_open_tag_only)
  then show ?thesis by (intro conjI decode_tag_only_envelope l)
qed

text \<open>
  C5, amended. On a service with a key, for every input that is not empty and decodes to
  fewer than 28 bytes, \<^verbatim>\<open>decrypt\<close> fails with the malformed-envelope error, whatever
  OpenSSL would do. An input that decodes to exactly 28 bytes, a zero-length ciphertext,
  is not rejected as malformed: it goes to OpenSSL, and \<^verbatim>\<open>decrypt\<close> fails with the
  authentication error exactly when its tag does not verify.
\<close>

theorem short_envelope_rejected:
  assumes "key this \<noteq> []" and "encrypted \<noteq> []"
    and "b64_decode encrypted = Inr encrypted_data"
  shows "(length encrypted_data < 28 \<longrightarrow> decrypt ossl this encrypted = Inl MalformedEnvelope)
       \<and> (length encrypted_data = 28 \<longrightarrow>
            decrypt ossl this encrypted \<noteq> Inl MalformedEnvelope
          \<and> (decrypt ossl this encrypted = Inl AuthenticationFailure
               \<longleftrightarrow> tag_check ossl this encrypted_data \<le> 0))"
  using assms decrypt_envelope_malformed_iff[of ossl this encrypted_data]
    decrypt_envelope_auth_iff[of encrypted_data ossl this]
  by (simp add: decrypt_def)

text \<open>
  The amended C5 at an input of 3 decoded bytes, which is rejected, and at the 28-byte
  envelope above, which is not.
\<close>

theorem short_envelope_rejected_witness:
  "key (EncryptionManager xor_ossl []) \<noteq> [] \<and> str ''AAAA'' \<noteq> []
   \<and> b64_decode (str ''AAAA'') = Inr [0, 0, 0] \<and> length [0, 0, 0 :: byte] < 28
   \<and> decrypt xor_ossl (EncryptionManager xor_ossl []) (str ''AAAA'') = Inl MalformedEnvelope
   \<and> str ''AAAAAAAAAAAAAAAApaWlpaWlpaWlpaWlpaWlpQ=='' \<noteq> []
   \<and> decrypt xor_ossl (EncryptionManager xor_ossl [])
        (str ''AAAAAAAAAAAAAAAApaWlpaWlpaWlpaWlpaWlpQ=='') \<noteq> Inl MalformedEnvelope"
proof -
  have 1: "key (EncryptionManager xor_ossl []) \<noteq> []" by (rule key_nonempty)
  have 2: "str ''AAAA'' \<noteq> []" by (simp add: str_def)
  have 3: "length [0, 0, 0 :: byte] < 28" by simp
  have 4: "str ''AAAAAAAAAAAAAAAApaWlpaWlpaWlpaWlpaWlpQ=='' \<noteq> []" by (simp add: str_def)
  have 5: "length (replicate 12 (0::byte) @ replicate 16 0xA5) = 28" by simp
  have 6: "decrypt xor_ossl (EncryptionManager xor_ossl []) (str ''AAAA'') = Inl MalformedEnvelope"
    using short_envelope_rejected[OF 1 2 decode_short_input, of xor_ossl] 3 by blast
  have 7: "decrypt xor_ossl (EncryptionManager xor_ossl [])
        (str ''AAAAAAAAAAAAAAAApaWlpaWlpaWlpaWlpaWlpQ=='') \<noteq> Inl MalformedEnvelope"
    using short_envelope_rejected[OF 1 4 decode_tag_only_envelope, of xor_ossl] 5 by blast
  show ?thesis by (intro conjI 1 2 decode_short_input 3 4 6 7)
qed

text \<open>
  C3, as stated, fails at an input of 40 characters of which the first 16 are \<^verbatim>\<open>!\<close>, a
  character outside the alphabet: \<^verbatim>\<open>decrypt\<close> raises no error. The characters are looked
  up as 255, the input decodes to an envelope whose tag the instance accepts under the
  key of the empty secret, and the plaintext \<^verbatim>\<open>hi\<close> is returned.
\<close>

theorem invalid_characters_accepted_counterexample:
  "decrypt xor_ossl (EncryptionManager xor_ossl [])
     (str ''!!!!!!!!!!!!!!!!Hh4eHh4eHh4eHh4eHh4eHkJD'') = Inr (str ''hi'')"
proof -
  have n: "str ''!!!!!!!!!!!!!!!!Hh4eHh4eHh4eHh4eHh4eHkJD'' \<noteq> []" by (simp add: str_def)
  show ?thesis
    unfolding decrypt_def using n key_nonempty[of xor_ossl "[]"]
    by (simp add: decode_bang_envelope xor_open_hi)
qed

text \<open>
  C3, amended. \<^verbatim>\<open>decrypt\<close> does not validate its input as base64. On a service with a
  key, every input that is not empty and whose length is 0 or 3 modulo 4 is decoded
  without an error, whatever its characters, and the decoded bytes decide the result:
  \<^verbatim>\<open>decrypt\<close> fails with the malformed-envelope error exactly when there are fewer than 28
  of them. (A length of 1 or 2 modulo 4 makes the loop read beyond the end of the string,
  which is left out here.)
\<close>

theorem no_base64_validation:
  assumes "key this \<noteq> []" and "encrypted \<noteq> []"
    and "length encrypted mod 4 = 0 \<or> length encrypted mod 4 = 3"
  shows "\<exists>encrypted_data. b64_decode encrypted = Inr encrypted_data
       \<and> decrypt ossl this encrypted = decrypt_envelope ossl this encrypted_data
       \<and> (decrypt ossl this encrypted = Inl MalformedEnvelope \<longleftrightarrow> length encrypted_data < 28)"
proof -
  from decode_total[OF assms(3)] obtain encrypted_data
    where d: "b64_decode encrypted = Inr encrypted_data" by blast
  have e: "decrypt ossl this encrypted = decrypt_envelope ossl this encrypted_data"
    using assms(1,2) d by (simp add: decrypt_def)
  show ?thesis using d e decrypt_envelope_malformed_iff[of ossl this encrypted_data] by simp
qed

text \<open>The amended C3 at the input \<^verbatim>\<open>!!!!\<close>.\<close>

theorem no_base64_validation_witness:
  "key (EncryptionManager xor_ossl []) \<noteq> []
   \<and> str ''!!!!'' \<noteq> []
   \<and> (length (str ''!!!!'') mod 4 = 0 \<or> length (str ''!!!!'') mod 4 = 3)
   \<and> (\<exists>encrypted_data. b64_decode (str ''!!!!'') = Inr encrypted_data
       \<and> decrypt xor_ossl (EncryptionManager xor_ossl []) (str ''!!!!'')
           = decrypt_envelope xor_ossl (EncryptionManager xor_ossl []) encrypted_data
       \<and> (decrypt xor_ossl (EncryptionManager xor_ossl []) (str ''!!!!'') = Inl MalformedEnvelope
            \<longleftrightarrow> length encrypted_data < 28))"
proof -
  have 1: "key (EncryptionManager xor_ossl []) \<noteq> []" by (rule key_nonempty)
  have 2: "str ''!!!!'' \<noteq> []" by (simp add: str_def)
  have 3: "length (str ''!!!!'') mod 4 = 0 \<or> length (str ''!!!!'') mod 4 = 3"
    by (simp add: str_def)
  show ?thesis by (intro conjI 1 2 3 no_base64_validation[OF 1 2 3])
qed

text \<open>
  C1 at a plaintext of \<open>2 ^ 32 + 5\<close> bytes. \<^verbatim>\<open>encrypt\<close> holds the length in an \<^verbatim>\<open>int\<close>,
  where it is 5, and encrypts 5 bytes. With OpenSSL meeting the contract and a 12-byte
  nonce, \<^verbatim>\<open>encrypt\<close> succeeds and \<^verbatim>\<open>decrypt\<close> of its result returns the first 5 bytes,
  not the plaintext.
\<close>

theorem roundtrip_truncates_long_plaintext:
  assumes "gcm_contract ossl" and "length nonce = 12"
  shows "\<exists>encrypted.
      encrypt ossl (EncryptionManager ossl master_key) nonce (replicate 4294967301 b) = Inr encrypted
    \<and> decrypt ossl (EncryptionManager ossl master_key) encrypted = Inr (replicate 5 b)
    \<and> replicate 5 b \<noteq> replicate 4294967301 b"
proof -
  let ?P = "replicate 4294967301 b"
  have L: "to_int (length ?P) = 5" by (simp add: to_int_wrapped)
  have ne: "?P \<noteq> []" by simp
  have t: "take (nat (to_int (length ?P))) ?P = replicate 5 b" unfolding L by simp
  have "length (replicate 5 b) \<noteq> length ?P" by simp
  then have neq: "replicate 5 b \<noteq> ?P" by metis
  from encrypt_decrypt_general[OF assms(1) key_length[of ossl master_key] assms(2) ne]
  show ?thesis unfolding t using L neq by simp
qed

text \<open>The same with the instance, the nonce of 12 zero bytes and the byte \<^verbatim>\<open>a\<close>.\<close>

theorem roundtrip_truncates_long_plaintext_witness:
  "length (replicate 12 (0::byte)) = 12
   \<and> (\<exists>encrypted.
      encrypt xor_ossl (EncryptionManager xor_ossl []) (replicate 12 0) (replicate 4294967301 0x61)
        = Inr encrypted
    \<and> decrypt xor_ossl (EncryptionManager xor_ossl []) encrypted = Inr (replicate 5 0x61)
    \<and> replicate 5 (0x61::byte) \<noteq> replicate 4294967301 0x61)"
proof -
  have 2: "length (replicate 12 (0::byte)) = 12" by simp
  show ?thesis
    by (intro conjI 2 roundtrip_truncates_long_plaintext[OF xor_ossl_contract 2])
qed

text \<open>
  C7 at the same plaintext of \<open>2 ^ 32 + 5\<close> bytes: the envelope \<^verbatim>\<open>encrypt\<close> builds is the
  nonce, a 16-byte tag and a ciphertext of 5 bytes, 33 bytes in all, not 28 bytes more
  than the plaintext.
\<close>

theorem envelope_of_long_plaintext:
  assumes "gcm_contract ossl" and "length nonce = 12"
  shows "\<exists>tag ciphertext.
      encrypt_envelope ossl (EncryptionManager ossl master_key) nonce (replicate 4294967301 b)
        = Inr (nonce @ tag @ ciphertext)
    \<and> length tag = 16 \<and> length ciphertext = 5
    \<and> length (nonce @ tag @ ciphertext) = 33"
proof -
  let ?P = "replicate 4294967301 b"
  have L: "to_int (length ?P) = 5" by (simp add: to_int_wrapped)
  have nonneg: "0 \<le> to_int (length ?P)" and fits: "to_int (length ?P) + 16 < 2 ^ 31"
    unfolding L by simp_all
  from seal_open[OF assms(1) key_length[of ossl master_key] assms(2) nonneg fits]
  obtain tag ciphertext where
    "encrypt_envelope ossl (EncryptionManager ossl master_key) nonce ?P
       = Inr (nonce @ tag @ ciphertext)"
    "length tag = 16" "length ciphertext = 5"
    unfolding L by auto
  then have "encrypt_envelope ossl (EncryptionManager ossl master_key) nonce ?P
       = Inr (nonce @ tag @ ciphertext)
    \<and> length tag = 16 \<and> length ciphertext = 5
    \<and> length (nonce @ tag @ ciphertext) = 33"
    using assms(2) by simp
  then show ?thesis by blast
qed

text \<open>The same with the instance, the nonce of 12 zero bytes and the byte \<^verbatim>\<open>a\<close>.\<close>

theorem envelope_of_long_plaintext_witness:
  "length (replicate 12 (0::byte)) = 12
   \<and> (\<exists>tag ciphertext.
      encrypt_envelope xor_ossl (EncryptionManager xor_ossl []) (replicate 12 0)
        (replicate 4294967301 0x61) = Inr (replicate 12 0 @ tag @ ciphertext)
    \<and> length tag = 16 \<and> length ciphertext = 5
    \<and> length (replicate 12 (0::byte) @ tag @ ciphertext) = 33)"
proof -
  have 2: "length (replicate 12 (0::byte)) = 12" by simp
  show ?thesis
    by (intro conjI 2 envelope_of_long_plaintext[OF xor_ossl_contract 2])
qed

end
